theory Spec2Isabelle
  imports Complex_Main "HOL-Library.AList" "HOL-Library.Monad_Syntax"
begin

section \<open>Values, objects and arrays\<close>

text \<open>
  The values a property of a step object holds under the declared types: a boolean, a
  string, or \<open>undefined\<close> (which is also what reading an absent property gives).
\<close>

datatype jsval = JUndefined | JBool bool | JStr string

fun truthy :: "jsval \<Rightarrow> bool" where
  "truthy JUndefined = False"
| "truthy (JBool b) = b"
| "truthy (JStr s) = (s \<noteq> [])"

text \<open>
  Modelled from the spec: the declarations of \<open>types/StepTypes\<close> are not among the
  sources. \<open>StepState\<close> has the five properties of the spec's data model, which are the
  ones the code reads. A property that was never written is \<open>JUndefined\<close>. Properties
  under other names are never read by the code and are not carried by the model.
\<close>

record StepState =
  name :: jsval
  canAccess :: jsval
  canEdit :: jsval
  isOptional :: jsval
  isCompleted :: jsval

text \<open>The object literal \<open>{}\<close>.\<close>

definition emptyObject :: StepState where
  "emptyObject = \<lparr>name = JUndefined, canAccess = JUndefined, canEdit = JUndefined,
     isOptional = JUndefined, isCompleted = JUndefined\<rparr>"

text \<open>
  A slot of a JavaScript array of steps: an empty slot (a hole, which \<open>map\<close> and
  \<open>filter\<close> skip), the value \<open>undefined\<close> (on which their callbacks are called), or a
  step object.
\<close>

datatype slot = Hole | Undef | Item StepState

text \<open>\<open>[...xs]\<close>: the iterator reads a hole as \<open>undefined\<close>.\<close>

definition copyArray :: "slot list \<Rightarrow> slot list" where
  "copyArray xs = map (\<lambda>s. case s of Hole \<Rightarrow> Undef | Undef \<Rightarrow> Undef | Item x \<Rightarrow> Item x) xs"

text \<open>
  \<open>xs[i]\<close> for an integer \<open>i\<close>: \<open>None\<close> is \<open>undefined\<close> (out of range, a hole, or the
  value itself).
\<close>

definition readAt :: "slot list \<Rightarrow> int \<Rightarrow> StepState option" where
  "readAt xs i =
     (if 0 \<le> i \<and> nat i < length xs
      then (case xs ! nat i of Item x \<Rightarrow> Some x | Hole \<Rightarrow> None | Undef \<Rightarrow> None)
      else None)"

text \<open>
  A JavaScript number as a \<open>stepIndex\<close> may hold it: a finite number (the doubles are
  among the rationals), \<open>NaN\<close>, or an infinity.
\<close>

datatype number = Num rat | NaN | PosInfinity | NegInfinity

text \<open>\<open>x < 0\<close> and \<open>x >= n\<close>: every comparison with \<open>NaN\<close> is false.\<close>

fun belowZero :: "number \<Rightarrow> bool" where
  "belowZero (Num r) = (r < 0)"
| "belowZero NaN = False"
| "belowZero PosInfinity = False"
| "belowZero NegInfinity = True"

fun atOrAbove :: "number \<Rightarrow> nat \<Rightarrow> bool" where
  "atOrAbove (Num r) n = (r \<ge> of_nat n)"
| "atOrAbove NaN n = False"
| "atOrAbove PosInfinity n = True"
| "atOrAbove NegInfinity n = False"

text \<open>
  The element a key names: a number is an array index when it is an integer from \<open>0\<close> to
  \<open>2^32 - 2\<close>. Under any other key \<open>xs[i]\<close> is a property of the array object, which is
  no element: \<open>map\<close>, \<open>filter\<close>, the spread and the serialization never see it, and the
  code reads it back only to write it under the same key again. The model does not carry
  such properties: reading one gives \<open>undefined\<close>, writing one changes nothing.
\<close>

fun arrayIndex :: "number \<Rightarrow> nat option" where
  "arrayIndex (Num r) =
     (if r = of_int \<lfloor>r\<rfloor> \<and> 0 \<le> r \<and> r \<le> 4294967294 then Some (nat \<lfloor>r\<rfloor>) else None)"
| "arrayIndex NaN = None"
| "arrayIndex PosInfinity = None"
| "arrayIndex NegInfinity = None"

text \<open>\<open>xs[i]\<close> for a number \<open>i\<close>.\<close>

definition readKey :: "slot list \<Rightarrow> number \<Rightarrow> StepState option" where
  "readKey xs i = (case arrayIndex i of None \<Rightarrow> None | Some k \<Rightarrow> readAt xs (int k))"

text \<open>
  \<open>xs[i] = v\<close>: at an index in range it overwrites; at an index at or past the end the
  array grows to length \<open>i + 1\<close>, the slots in between left empty.
\<close>

definition setAt :: "slot list \<Rightarrow> number \<Rightarrow> StepState \<Rightarrow> slot list" where
  "setAt xs i v =
     (case arrayIndex i of
        None \<Rightarrow> xs
      | Some k \<Rightarrow>
          if k < length xs then xs[k := Item v]
          else xs @ replicate (k - length xs) Hole @ [Item v])"

text \<open>An object literal with its own keys in order, as \<open>Object.keys\<close> lists them.\<close>

type_synonym props = "(string \<times> jsval) list"

fun assign :: "StepState \<Rightarrow> string \<times> jsval \<Rightarrow> StepState" where
  "assign s (k, v) =
     (if k = ''name'' then s\<lparr>name := v\<rparr>
      else if k = ''canAccess'' then s\<lparr>canAccess := v\<rparr>
      else if k = ''canEdit'' then s\<lparr>canEdit := v\<rparr>
      else if k = ''isOptional'' then s\<lparr>isOptional := v\<rparr>
      else if k = ''isCompleted'' then s\<lparr>isCompleted := v\<rparr>
      else s)"

text \<open>\<open>{...step, ...data}\<close>, where \<open>step\<close> may be \<open>undefined\<close> (spread as \<open>{}\<close>).\<close>

definition spreadStep :: "StepState option \<Rightarrow> props \<Rightarrow> StepState" where
  "spreadStep step d =
     fold (\<lambda>kv s. assign s kv) d (case step of None \<Rightarrow> emptyObject | Some s \<Rightarrow> s)"

text \<open>\<open>{...a, ...b}\<close> on the shared payload: a shallow merge, the keys of \<open>a\<close> first.\<close>

definition spread :: "(string \<times> 'g) list \<Rightarrow> (string \<times> 'g) list \<Rightarrow> (string \<times> 'g) list" where
  "spread a b = fold (\<lambda>(k, v). AList.update k v) b a"

section \<open>The stepper state, the configuration and the hook\<close>

text \<open>
  Modelled from the spec: \<open>GeneralInfo\<close>, \<open>StepperState\<close>, the configuration and the
  inputs of the operations are declared in \<open>types/StepTypes\<close>, which is not among the
  sources; the records of this section have the fields of the spec's data model, each one
  a field that the code reads or writes.

  \<open>totalSteps\<close> is only ever assigned the length of an array, so it is a natural number;
  the progress ratios are numbers, divided exactly here.
\<close>

record GeneralInfo =
  totalSteps :: nat
  currentProgress :: rat
  completedProgress :: rat
  canAccessProgress :: rat

record 'g StepperState =
  generalInfo :: GeneralInfo
  steps :: "slot list"
  generalState :: "(string \<times> 'g) list"
  isLoadedFromLocalStorage :: "bool option"

text \<open>A partial step patch of the configuration; \<open>None\<close> is a field left out.\<close>

record StepOverride =
  ov_canAccess :: "bool option"
  ov_isCompleted :: "bool option"
  ov_isOptional :: "bool option"
  ov_canEdit :: "bool option"

record NextConfig =
  next_currentStep :: "StepOverride option"
  next_nextStep :: "StepOverride option"

record PrevConfig =
  prev_currentStep :: "StepOverride option"
  prev_prevStep :: "StepOverride option"

record GoToStepValidation =
  val_canAccess :: "bool option"

record Validations =
  val_goToStep :: "GoToStepValidation option"

record StepperConfig =
  saveLocalStorage :: "bool option"
  cfg_next :: "NextConfig option"
  cfg_prev :: "PrevConfig option"
  validations :: "Validations option"

text \<open>An entry of the \<open>steps\<close> array given to \<open>setStepsInfo\<close> (its component left out).\<close>

record StepConfig =
  sc_name :: string
  sc_canAccess :: "bool option"
  sc_canEdit :: "bool option"
  sc_isOptional :: "bool option"
  sc_isCompleted :: "bool option"

record UpdateStepInput =
  stepIndex :: number
  data :: props

text \<open>
  How the promise of a caller-supplied callback settles. A callback is taken as a function
  of the state it is given: what else it may do to the host page is outside the model,
  and so is a promise that never settles (the operation that awaits it never returns).
\<close>

datatype settled = Resolved | Rejected string

text \<open>
  The optional argument of the navigation functions. Every field is optional, and a call
  without the argument is the record with every field \<open>None\<close>. \<open>updateGeneralStates\<close> holds
  the \<open>data\<close> of that option.
\<close>

record 'g NavigationArgs =
  onCompleteStep :: "('g StepperState \<Rightarrow> settled) option"
  statusUpdates :: "UpdateStepInput list option"
  updateGeneralStates :: "(string \<times> 'g) list option"

text \<open>What is caught and logged by \<open>executeStepNavigation\<close>.\<close>

datatype thrown = TypeError | StorageError | CallbackError string

datatype log_entry =
    Warn_AlreadyOnLastStep
  | Warn_AlreadyOnFirstStep
  | Warn_StepNotAccessible int
  | Error_InStepNavigation thrown

datatype error =
    StepDoesNotExist int
  | InvalidDataProvided props
  | InvalidStepIndex number
  | StorageFailure
  | CallbackRejection string

datatype promise = Fulfilled | RejectedWith error

text \<open>
  The state cells of the provider, the item stored under the key \<open>stepperState\<close> (the
  state whose serialization it is; \<open>None\<close> when the key is absent) and the console.
  An operation reads the cells as they are when it is called and sets them when it ends.
  \<open>storable\<close> and \<open>removable\<close> are the host's part: whether \<open>JSON.stringify\<close> of the
  state and \<open>setItem\<close> of its text return, rather than throw (a payload that cannot be
  serialized, a full store), and whether \<open>removeItem\<close> returns (it throws where the page
  is denied its store).
\<close>

record 'g hook =
  currentStep :: int
  stepperState :: "'g StepperState"
  loading :: bool
  config :: StepperConfig
  localStorage :: "'g StepperState option"
  storable :: "'g StepperState \<Rightarrow> bool"
  removable :: bool
  console :: "log_entry list"

section \<open>Step navigation\<close>

text \<open>\<open>totalSteps || 1\<close>.\<close>

definition orOne :: "nat \<Rightarrow> nat" where
  "orOne n = (if n = 0 then 1 else n)"

text \<open>
  The length of \<open>steps.filter(p)\<close> for a callback that reads a property of the item:
  holes are skipped, and the callback throws a TypeError on \<open>undefined\<close> (\<open>None\<close>).
\<close>

fun countWhere :: "(StepState \<Rightarrow> bool) \<Rightarrow> slot list \<Rightarrow> nat option" where
  "countWhere p [] = Some 0"
| "countWhere p (Hole # xs) = countWhere p xs"
| "countWhere p (Undef # xs) = None"
| "countWhere p (Item x # xs) = map_option (\<lambda>n. if p x then Suc n else n) (countWhere p xs)"

text \<open>The pair is (completedProgress, canAccessProgress).\<close>

definition calculateProgress :: "slot list \<Rightarrow> nat \<Rightarrow> (rat \<times> rat) option" where
  "calculateProgress xs total_steps =
     do {
       completed \<leftarrow> countWhere (\<lambda>item. isCompleted item = JBool True) xs;
       accessible \<leftarrow> countWhere (\<lambda>item. canAccess item = JBool True) xs;
       Some (of_nat completed / of_nat (orOne total_steps), of_nat accessible / of_nat (orOne total_steps))
     }"

text \<open>Every update is spread over the step of the state before the call.\<close>

definition updateStepsStatus :: "'g StepperState \<Rightarrow> UpdateStepInput list \<Rightarrow> slot list" where
  "updateStepsStatus currentState updates =
     fold (\<lambda>updateStep updatedSteps.
             setAt updatedSteps (stepIndex updateStep)
               (spreadStep (readKey (steps currentState) (stepIndex updateStep)) (data updateStep)))
       updates (copyArray (steps currentState))"

text \<open>
  \<open>configured ?? step.field\<close>: the step is read only when the configuration leaves the
  field out, and reading a property of \<open>undefined\<close> throws (\<open>None\<close>).
\<close>

definition fromStep :: "bool option \<Rightarrow> StepState option \<Rightarrow> (StepState \<Rightarrow> jsval) \<Rightarrow> jsval option" where
  "fromStep configured step field =
     (case configured of
        Some b \<Rightarrow> Some (JBool b)
      | None \<Rightarrow> map_option field step)"

text \<open>\<open>configured ?? true\<close>.\<close>

definition orTrue :: "bool option \<Rightarrow> jsval" where
  "orTrue configured = (case configured of Some b \<Rightarrow> JBool b | None \<Rightarrow> JBool True)"

definition base :: "StepState option \<Rightarrow> StepState" where
  "base step = (case step of None \<Rightarrow> emptyObject | Some s \<Rightarrow> s)"

text \<open>
  The callback of \<open>steps.map\<close> in \<open>updateStepStates\<close>, on the value \<open>step\<close> of a slot that
  is not a hole; \<open>None\<close> when it throws, else the new value (\<open>undefined\<close> is passed through
  by the last \<open>return step\<close>).
\<close>

definition stepCallback ::
  "StepperConfig \<Rightarrow> int \<Rightarrow> int option \<Rightarrow> bool \<Rightarrow> StepState option \<Rightarrow> int \<Rightarrow> slot option" where
  "stepCallback cfg currentStepIndex targetStepIndex isMovingForward step index =
     (let isCurrentStep = (index = currentStepIndex);
          isTargetStep = (targetStepIndex \<noteq> None \<and> Some index = targetStepIndex)
      in
      if isCurrentStep \<and> isMovingForward then
        do {
          a \<leftarrow> fromStep (cfg_next cfg \<bind> next_currentStep \<bind> ov_canAccess) step canAccess;
          opt \<leftarrow> fromStep (cfg_next cfg \<bind> next_currentStep \<bind> ov_isOptional) step isOptional;
          e \<leftarrow> fromStep (cfg_next cfg \<bind> next_currentStep \<bind> ov_canEdit) step canEdit;
          Some (Item ((base step)\<lparr>canAccess := a,
            isCompleted := orTrue (cfg_next cfg \<bind> next_currentStep \<bind> ov_isCompleted),
            isOptional := opt, canEdit := e\<rparr>))
        }
      else if isCurrentStep \<and> \<not> isMovingForward then
        do {
          a \<leftarrow> fromStep (cfg_prev cfg \<bind> prev_currentStep \<bind> ov_canAccess) step canAccess;
          c \<leftarrow> fromStep (cfg_prev cfg \<bind> prev_currentStep \<bind> ov_isCompleted) step isCompleted;
          opt \<leftarrow> fromStep (cfg_prev cfg \<bind> prev_currentStep \<bind> ov_isOptional) step isOptional;
          e \<leftarrow> fromStep (cfg_prev cfg \<bind> prev_currentStep \<bind> ov_canEdit) step canEdit;
          Some (Item ((base step)\<lparr>canAccess := a, isCompleted := c, isOptional := opt, canEdit := e\<rparr>))
        }
      else if isTargetStep \<and> isMovingForward then
        do {
          c \<leftarrow> fromStep (cfg_next cfg \<bind> next_nextStep \<bind> ov_isCompleted) step isCompleted;
          opt \<leftarrow> fromStep (cfg_next cfg \<bind> next_nextStep \<bind> ov_isOptional) step isOptional;
          e \<leftarrow> fromStep (cfg_next cfg \<bind> next_nextStep \<bind> ov_canEdit) step canEdit;
          Some (Item ((base step)\<lparr>
            canAccess := orTrue (cfg_next cfg \<bind> next_nextStep \<bind> ov_canAccess),
            isCompleted := c, isOptional := opt, canEdit := e\<rparr>))
        }
      else if isTargetStep \<and> \<not> isMovingForward then
        do {
          a \<leftarrow> fromStep (cfg_prev cfg \<bind> prev_prevStep \<bind> ov_canAccess) step canAccess;
          c \<leftarrow> fromStep (cfg_prev cfg \<bind> prev_prevStep \<bind> ov_isCompleted) step isCompleted;
          opt \<leftarrow> fromStep (cfg_prev cfg \<bind> prev_prevStep \<bind> ov_isOptional) step isOptional;
          e \<leftarrow> fromStep (cfg_prev cfg \<bind> prev_prevStep \<bind> ov_canEdit) step canEdit;
          Some (Item ((base step)\<lparr>canAccess := a, isCompleted := c, isOptional := opt, canEdit := e\<rparr>))
        }
      else Some (case step of None \<Rightarrow> Undef | Some s \<Rightarrow> Item s))"

text \<open>\<open>steps.map\<close> from index \<open>i\<close> on: a hole stays a hole, a throwing callback ends it.\<close>

fun mapSteps :: "(StepState option \<Rightarrow> int \<Rightarrow> slot option) \<Rightarrow> nat \<Rightarrow> slot list \<Rightarrow> slot list option" where
  "mapSteps f i [] = Some []"
| "mapSteps f i (Hole # xs) = map_option ((#) Hole) (mapSteps f (Suc i) xs)"
| "mapSteps f i (Undef # xs) =
     (case f None (int i) of
        None \<Rightarrow> None
      | Some y \<Rightarrow> map_option ((#) y) (mapSteps f (Suc i) xs))"
| "mapSteps f i (Item x # xs) =
     (case f (Some x) (int i) of
        None \<Rightarrow> None
      | Some y \<Rightarrow> map_option ((#) y) (mapSteps f (Suc i) xs))"

definition updateStepStates ::
  "StepperConfig \<Rightarrow> slot list \<Rightarrow> int \<Rightarrow> int option \<Rightarrow> bool \<Rightarrow> slot list option" where
  "updateStepStates cfg xs currentStepIndex targetStepIndex isMovingForward =
     mapSteps (stepCallback cfg currentStepIndex targetStepIndex isMovingForward) 0 xs"

text \<open>
  \<open>saveToLocalStorage\<close>: writes only when \<open>config.saveLocalStorage\<close> is truthy; \<open>None\<close>
  when the write throws.
\<close>

definition saveToLocalStorage :: "'g StepperState \<Rightarrow> 'g hook \<Rightarrow> 'g hook option" where
  "saveToLocalStorage state h =
     (if saveLocalStorage (config h) = Some True
      then (if storable h state then Some (h\<lparr>localStorage := Some state\<rparr>) else None)
      else Some h)"

text \<open>
  The new state that the \<open>try\<close> block of \<open>executeStepNavigation\<close> builds from the state,
  the index and the configuration of the hook; \<open>None\<close> when building it throws.
\<close>

definition newState :: "int \<Rightarrow> 'g NavigationArgs \<Rightarrow> 'g hook \<Rightarrow> 'g StepperState option" where
  "newState targetStep args h =
     (let currentState = stepperState h;
          updatedSteps = updateStepsStatus currentState
            (case statusUpdates args of None \<Rightarrow> [] | Some us \<Rightarrow> us);
          isMovingForward = (targetStep > currentStep h)
      in do {
        finalSteps \<leftarrow> updateStepStates (config h) updatedSteps (currentStep h)
          (Some targetStep) isMovingForward;
        progress \<leftarrow> calculateProgress finalSteps (totalSteps (generalInfo currentState));
        Some (currentState\<lparr>
          steps := finalSteps,
          generalInfo := (generalInfo currentState)\<lparr>
            currentProgress :=
              of_int (targetStep + 1) / of_nat (orOne (totalSteps (generalInfo currentState))),
            completedProgress := fst progress,
            canAccessProgress := snd progress\<rparr>,
          generalState := spread (generalState currentState)
            (case updateGeneralStates args of None \<Rightarrow> [] | Some d \<Rightarrow> d)\<rparr>)
      })"

text \<open>The last two statements of the \<open>try\<close> block.\<close>

definition commit :: "'g StepperState \<Rightarrow> int \<Rightarrow> 'g hook \<Rightarrow> 'g hook" where
  "commit state targetStep h = h\<lparr>stepperState := state, currentStep := targetStep\<rparr>"

definition logError :: "thrown \<Rightarrow> 'g hook \<Rightarrow> 'g hook" where
  "logError e h = h\<lparr>console := console h @ [Error_InStepNavigation e]\<rparr>"

definition executeStepNavigation :: "int \<Rightarrow> 'g NavigationArgs \<Rightarrow> 'g hook \<Rightarrow> 'g hook" where
  "executeStepNavigation targetStep args h =
     (let h1 = h\<lparr>loading := True\<rparr>;
          h2 =
            (case newState targetStep args h of
               None \<Rightarrow> logError TypeError h1
             | Some currentState \<Rightarrow>
                 (case saveToLocalStorage currentState h1 of
                    None \<Rightarrow> logError StorageError h1
                  | Some h3 \<Rightarrow>
                      (case onCompleteStep args of
                         None \<Rightarrow> commit currentState targetStep h3
                       | Some callback \<Rightarrow>
                           (case callback currentState of
                              Resolved \<Rightarrow> commit currentState targetStep h3
                            | Rejected e \<Rightarrow> logError (CallbackError e) h3))))
      in h2\<lparr>loading := False\<rparr>)"

definition onNext :: "'g NavigationArgs \<Rightarrow> 'g hook \<Rightarrow> promise \<times> 'g hook" where
  "onNext args h =
     (if currentStep h \<ge> int (totalSteps (generalInfo (stepperState h))) - 1 then
        (if saveLocalStorage (config h) = Some True \<and> \<not> removable h
         then (RejectedWith StorageFailure, h)
         else
           (let h1 = (if saveLocalStorage (config h) = Some True
                      then h\<lparr>localStorage := None\<rparr> else h)
            in case onCompleteStep args of
                 None \<Rightarrow> (Fulfilled, h1\<lparr>console := console h1 @ [Warn_AlreadyOnLastStep]\<rparr>)
               | Some callback \<Rightarrow>
                   (case callback (stepperState h) of
                      Resolved \<Rightarrow> (Fulfilled, h1\<lparr>console := console h1 @ [Warn_AlreadyOnLastStep]\<rparr>)
                    | Rejected e \<Rightarrow> (RejectedWith (CallbackRejection e), h1))))
      else (Fulfilled, executeStepNavigation (currentStep h + 1) args h))"

definition onPrev :: "'g NavigationArgs \<Rightarrow> 'g hook \<Rightarrow> promise \<times> 'g hook" where
  "onPrev args h =
     (if currentStep h = 0 then (Fulfilled, h\<lparr>console := console h @ [Warn_AlreadyOnFirstStep]\<rparr>)
      else (Fulfilled, executeStepNavigation (currentStep h - 1) args h))"

definition goToStep :: "int \<Rightarrow> 'g NavigationArgs \<Rightarrow> 'g hook \<Rightarrow> promise \<times> 'g hook" where
  "goToStep nextStep args h =
     (if nextStep < 0 \<or> nextStep \<ge> int (totalSteps (generalInfo (stepperState h))) then
        (RejectedWith (StepDoesNotExist nextStep), h)
      else if nextStep = currentStep h then (Fulfilled, h)
      else
        (let validationCanAccess =
               (case validations (config h) \<bind> val_goToStep \<bind> val_canAccess of
                  None \<Rightarrow> True
                | Some b \<Rightarrow> b)
         in if validationCanAccess \<and> nextStep > currentStep h
               \<and> \<not> truthy (case readAt (steps (stepperState h)) nextStep of
                               None \<Rightarrow> JUndefined
                             | Some s \<Rightarrow> canAccess s)
            then (Fulfilled, h\<lparr>console := console h @ [Warn_StepNotAccessible nextStep]\<rparr>)
            else (Fulfilled, executeStepNavigation nextStep args h)))"

section \<open>Step actions\<close>

text \<open>The callback of \<open>steps.map\<close> in \<open>setStepsInfo\<close>.\<close>

definition initialStep :: "StepConfig \<Rightarrow> nat \<Rightarrow> StepState" where
  "initialStep step index =
     \<lparr>name = JStr (sc_name step),
      canAccess = (case sc_canAccess step of Some b \<Rightarrow> JBool b | None \<Rightarrow> JBool (index = 0)),
      canEdit = (case sc_canEdit step of Some b \<Rightarrow> JBool b | None \<Rightarrow> JBool False),
      isOptional = JBool (sc_isOptional step = Some True),
      isCompleted = JBool (sc_isCompleted step = Some True)\<rparr>"

text \<open>\<open>setStepsInfo\<close>: a functional update of the state cell; nothing is persisted.\<close>

definition setStepsInfo :: "StepConfig list \<Rightarrow> 'g hook \<Rightarrow> 'g hook" where
  "setStepsInfo cfgs h =
     h\<lparr>stepperState := (stepperState h)\<lparr>
         generalInfo :=
           \<lparr>totalSteps = length cfgs,
            currentProgress = 0,
            completedProgress = 0,
            canAccessProgress = (if length cfgs > 0 then 1 / of_nat (length cfgs) else 0)\<rparr>,
         steps := map (\<lambda>(index, step). Item (initialStep step index)) (enumerate 0 cfgs)\<rparr>\<rparr>"

text \<open>
  The last three statements of \<open>updateGeneralState\<close> and of \<open>updateSteps\<close>: the state
  cell is set, then the state is saved outside any \<open>try\<close>, so that a write that throws
  leaves the function after the cell is set.
\<close>

definition setAndSave :: "'g StepperState \<Rightarrow> 'g hook \<Rightarrow> (error + 'g StepperState) \<times> 'g hook" where
  "setAndSave state h =
     (case saveToLocalStorage state (h\<lparr>stepperState := state\<rparr>) of
        None \<Rightarrow> (Inl StorageFailure, h\<lparr>stepperState := state\<rparr>)
      | Some h' \<Rightarrow> (Inr state, h'))"

definition updateGeneralState ::
  "(string \<times> 'g) list \<Rightarrow> 'g hook \<Rightarrow> (error + 'g StepperState) \<times> 'g hook" where
  "updateGeneralState d h =
     setAndSave ((stepperState h)\<lparr>generalState := spread (generalState (stepperState h)) d\<rparr>) h"

definition validKeys :: "string list" where
  "validKeys = [''canAccess'', ''canEdit'', ''isOptional'', ''isCompleted'']"

definition isValidData :: "props \<Rightarrow> bool" where
  "isValidData d = list_all (\<lambda>key. key \<in> set validKeys) (map fst d)"

text \<open>
  The validating \<open>forEach\<close> of \<open>updateSteps\<close> over a step array of length \<open>n\<close>: the error
  thrown at the first update that fails, \<open>None\<close> when every update passes.
\<close>

text \<open>
  What \<open>JSON.stringify(data)\<close> writes into the error message: the members of the object
  but those whose value is \<open>undefined\<close>.
\<close>

definition written :: "props \<Rightarrow> props" where
  "written d = filter (\<lambda>kv. snd kv \<noteq> JUndefined) d"

fun validateUpdates :: "nat \<Rightarrow> UpdateStepInput list \<Rightarrow> error option" where
  "validateUpdates n [] = None"
| "validateUpdates n (u # us) =
     (if \<not> isValidData (data u) then Some (InvalidDataProvided (written (data u)))
      else if belowZero (stepIndex u) \<or> atOrAbove (stepIndex u) n
        then Some (InvalidStepIndex (stepIndex u))
      else validateUpdates n us)"

text \<open>The applying \<open>forEach\<close>: every update is spread over the step as updated so far.\<close>

definition applyUpdates :: "slot list \<Rightarrow> UpdateStepInput list \<Rightarrow> slot list" where
  "applyUpdates xs updates =
     fold (\<lambda>u updatedSteps.
             setAt updatedSteps (stepIndex u) (spreadStep (readKey updatedSteps (stepIndex u)) (data u)))
       updates (copyArray xs)"

definition updateSteps :: "UpdateStepInput list \<Rightarrow> 'g hook \<Rightarrow> (error + 'g StepperState) \<times> 'g hook" where
  "updateSteps updates h =
     (case validateUpdates (length (steps (stepperState h))) updates of
        Some e \<Rightarrow> (Inl e, h)
      | None \<Rightarrow>
          setAndSave ((stepperState h)\<lparr>steps := applyUpdates (steps (stepperState h)) updates\<rparr>) h)"

section \<open>The persistence adapter\<close>

text \<open>
  \<open>useStepperSync\<close> works on the host's \<open>JSON\<close> and \<open>localStorage\<close>, which are no code of
  this repository and are parameters here: \<open>stringify\<close> and \<open>parse\<close> give \<open>None\<close> when
  they throw, \<open>fits key text\<close> says whether \<open>setItem\<close> accepts the text (it throws when
  the quota is exceeded), and \<open>readable key\<close> and \<open>clearable key\<close> whether \<open>getItem\<close> and
  \<open>removeItem\<close> return (they throw where the page is denied its store).
\<close>

record 'v host =
  stringify :: "'v \<Rightarrow> string option"
  parse :: "string \<Rightarrow> 'v option"
  fits :: "string \<Rightarrow> string \<Rightarrow> bool"
  readable :: "string \<Rightarrow> bool"
  clearable :: "string \<Rightarrow> bool"

datatype sync_warning = FailedToSave | FailedToLoad | FailedToClear

record store =
  items :: "string \<Rightarrow> string option"
  warnings :: "sync_warning list"

text \<open>\<open>saveToLocalStorage(key, data)\<close> of \<open>useStepperSync\<close>.\<close>

definition sync_saveToLocalStorage :: "'v host \<Rightarrow> string \<Rightarrow> 'v \<Rightarrow> store \<Rightarrow> store" where
  "sync_saveToLocalStorage w key d st =
     (case stringify w d of
        None \<Rightarrow> st\<lparr>warnings := warnings st @ [FailedToSave]\<rparr>
      | Some text \<Rightarrow>
          if fits w key text then st\<lparr>items := (items st)(key \<mapsto> text)\<rparr>
          else st\<lparr>warnings := warnings st @ [FailedToSave]\<rparr>)"

text \<open>
  \<open>loadFromLocalStorage(key)\<close>: \<open>None\<close> is \<open>null\<close>, returned for an absent key, for the
  empty string (which is falsy) and, with a warning, when reading or parsing throws.
\<close>

definition loadFromLocalStorage :: "'v host \<Rightarrow> string \<Rightarrow> store \<Rightarrow> 'v option \<times> store" where
  "loadFromLocalStorage w key st =
     (if \<not> readable w key then (None, st\<lparr>warnings := warnings st @ [FailedToLoad]\<rparr>)
      else
        (case items st key of
           None \<Rightarrow> (None, st)
         | Some item \<Rightarrow>
             if item = [] then (None, st)
             else (case parse w item of
                     None \<Rightarrow> (None, st\<lparr>warnings := warnings st @ [FailedToLoad]\<rparr>)
                   | Some v \<Rightarrow> (Some v, st))))"

definition clearFromLocalStorage :: "'v host \<Rightarrow> string \<Rightarrow> store \<Rightarrow> store" where
  "clearFromLocalStorage w key st =
     (if clearable w key then st\<lparr>items := (items st)(key := None)\<rparr>
      else st\<lparr>warnings := warnings st @ [FailedToClear]\<rparr>)"

section \<open>Example inputs\<close>

text \<open>The base state of the provider (\<open>createInitialState\<close>), before any step is configured.\<close>

definition baseState :: "jsval StepperState" where
  "baseState =
     \<lparr>generalInfo = \<lparr>totalSteps = 0, currentProgress = 0, completedProgress = 0,
        canAccessProgress = 0\<rparr>,
      steps = [], generalState = [], isLoadedFromLocalStorage = Some False\<rparr>"

definition plainStep :: "string \<Rightarrow> StepConfig" where
  "plainStep n = \<lparr>sc_name = n, sc_canAccess = None, sc_canEdit = None, sc_isOptional = None,
     sc_isCompleted = None\<rparr>"

definition threeSteps :: "StepConfig list" where
  "threeSteps = [plainStep ''Step 1'', plainStep ''Step 2'', plainStep ''Step 3'']"

definition plainConfig :: StepperConfig where
  "plainConfig = \<lparr>saveLocalStorage = Some True, cfg_next = None, cfg_prev = None,
     validations = None\<rparr>"

text \<open>A host that serializes and stores every state.\<close>

definition always :: "jsval StepperState \<Rightarrow> bool" where
  "always state = True"

definition mountedHook :: "jsval hook" where
  "mountedHook = \<lparr>currentStep = 0, stepperState = baseState, loading = False,
     config = plainConfig, localStorage = None, storable = always, removable = True,
     console = []\<rparr>"

text \<open>A provider with three steps configured, on its first step.\<close>

definition wizard :: "jsval hook" where
  "wizard = setStepsInfo threeSteps mountedHook"

text \<open>A call without the optional argument.\<close>

definition noArgs :: "jsval NavigationArgs" where
  "noArgs = \<lparr>onCompleteStep = None, statusUpdates = None, updateGeneralStates = None\<rparr>"

text \<open>The same wizard after two calls of \<open>onNext\<close>: on its last step.\<close>

definition wizardAtEnd :: "jsval hook" where
  "wizardAtEnd = snd (onNext noArgs (snd (onNext noArgs wizard)))"

text \<open>The wizard on its last step, after \<open>updateSteps\<close> has closed the second step.\<close>

definition closedBehind :: "jsval hook" where
  "closedBehind =
     snd (updateSteps [\<lparr>stepIndex = Num 1, data = [(''canAccess'', JBool False)]\<rparr>] wizardAtEnd)"

definition failingCallback :: "jsval StepperState \<Rightarrow> settled" where
  "failingCallback state = Rejected ''request failed''"

definition withFailingCallback :: "jsval NavigationArgs" where
  "withFailingCallback = noArgs\<lparr>onCompleteStep := Some failingCallback\<rparr>"

text \<open>A status update one past the end of a three-step list.\<close>

definition pastTheEnd :: "jsval NavigationArgs" where
  "pastTheEnd = noArgs\<lparr>statusUpdates :=
     Some [\<lparr>stepIndex = Num 3, data = [(''canEdit'', JBool True)]\<rparr>]\<rparr>"

text \<open>The second update of this batch names a property that is no step flag.\<close>

definition badBatch :: "UpdateStepInput list" where
  "badBatch =
     [\<lparr>stepIndex = Num 0, data = [(''isCompleted'', JBool True)]\<rparr>,
      \<lparr>stepIndex = Num 1, data = [(''invalidProperty'', JBool True)]\<rparr>]"

text \<open>A batch that \<open>updateSteps\<close> accepts on a three-step list.\<close>

definition goodBatch :: "UpdateStepInput list" where
  "goodBatch =
     [\<lparr>stepIndex = Num 0, data = [(''isCompleted'', JBool True)]\<rparr>,
      \<lparr>stepIndex = Num 2, data = [(''canEdit'', JBool True)]\<rparr>]"

text \<open>A status update for the last step of a three-step list.\<close>

definition inRange :: "jsval NavigationArgs" where
  "inRange = noArgs\<lparr>statusUpdates :=
     Some [\<lparr>stepIndex = Num 2, data = [(''canEdit'', JBool True)]\<rparr>]\<rparr>"

text \<open>A batch whose only update has the index \<open>NaN\<close>.\<close>

definition nanBatch :: "UpdateStepInput list" where
  "nanBatch = [\<lparr>stepIndex = NaN, data = [(''isCompleted'', JBool True)]\<rparr>]"

text \<open>The wizard on a host whose store is full: every write throws.\<close>

definition never :: "jsval StepperState \<Rightarrow> bool" where
  "never state = False"

definition wizardFullStore :: "jsval hook" where
  "wizardFullStore = wizard\<lparr>storable := never\<rparr>"

text \<open>
  Three values that the adapter may be given or may return: the base state of the
  provider, the same state with \<open>NaN\<close> for its \<open>currentProgress\<close> (the value that
  \<open>(targetStep + 1) / totalSteps\<close> takes for a target \<open>NaN\<close>), and with \<open>null\<close> for it.
\<close>

datatype sample = BaseState | BaseStateNaN | BaseStateNull

definition baseText :: string where
  "baseText = ''{\"generalInfo\":{\"totalSteps\":0,\"currentProgress\":0,\"completedProgress\":0,\"canAccessProgress\":0},\"steps\":[],\"generalState\":{},\"isLoadedFromLocalStorage\":false}''"

definition nullText :: string where
  "nullText = ''{\"generalInfo\":{\"totalSteps\":0,\"currentProgress\":null,\"completedProgress\":0,\"canAccessProgress\":0},\"steps\":[],\"generalState\":{},\"isLoadedFromLocalStorage\":false}''"

text \<open>
  The host's \<open>JSON\<close> on these three values, with a store that is open to the page and
  has room for any text:
  \<open>JSON.stringify\<close> writes \<open>NaN\<close> as \<open>null\<close>, and \<open>JSON.parse\<close> reads \<open>null\<close> as
  \<open>null\<close>. Texts of other values are not part of the sample.
\<close>

definition sampleStringify :: "sample \<Rightarrow> string option" where
  "sampleStringify v =
     Some (case v of BaseState \<Rightarrow> baseText | BaseStateNaN \<Rightarrow> nullText | BaseStateNull \<Rightarrow> nullText)"

definition sampleParse :: "string \<Rightarrow> sample option" where
  "sampleParse text =
     (if text = baseText then Some BaseState
      else if text = nullText then Some BaseStateNull
      else None)"

definition anyText :: "string \<Rightarrow> string \<Rightarrow> bool" where
  "anyText key text = True"

definition anyKey :: "string \<Rightarrow> bool" where
  "anyKey key = True"

definition sampleJSON :: "sample host" where
  "sampleJSON = \<lparr>stringify = sampleStringify, parse = sampleParse, fits = anyText,
     readable = anyKey, clearable = anyKey\<rparr>"

definition emptyStore :: store where
  "emptyStore = \<lparr>items = Map.empty, warnings = []\<rparr>"

text \<open>The state the wizard builds when it moves from its first to its second step.\<close>

definition wizardOnSecond :: "jsval StepperState" where
  "wizardOnSecond =
     \<lparr>generalInfo = \<lparr>totalSteps = 3, currentProgress = 2 / 3, completedProgress = 1 / 3,
        canAccessProgress = 2 / 3\<rparr>,
      steps =
        [Item \<lparr>name = JStr ''Step 1'', canAccess = JBool True, canEdit = JBool False,
           isOptional = JBool False, isCompleted = JBool True\<rparr>,
         Item \<lparr>name = JStr ''Step 2'', canAccess = JBool True, canEdit = JBool False,
           isOptional = JBool False, isCompleted = JBool False\<rparr>,
         Item \<lparr>name = JStr ''Step 3'', canAccess = JBool False, canEdit = JBool False,
           isOptional = JBool False, isCompleted = JBool False\<rparr>],
      generalState = [], isLoadedFromLocalStorage = Some False\<rparr>"

section \<open>Notions used by the statements\<close>

text \<open>An override field: the configured value when there is one, else the given value.\<close>

definition keep :: "bool option \<Rightarrow> jsval \<Rightarrow> jsval" where
  "keep configured existing = (case configured of None \<Rightarrow> existing | Some b \<Rightarrow> JBool b)"

text \<open>A step array as its type describes it: every slot holds a step object.\<close>

definition allItems :: "slot list \<Rightarrow> bool" where
  "allItems xs = list_all (\<lambda>s. case s of Item x \<Rightarrow> True | Hole \<Rightarrow> False | Undef \<Rightarrow> False) xs"

text \<open>
  The write of a state by \<open>saveToLocalStorage\<close> returns: nothing is written, or the host
  serializes and stores the state.
\<close>

definition writeReturns :: "'g hook \<Rightarrow> 'g StepperState \<Rightarrow> bool" where
  "writeReturns h state = (saveLocalStorage (config h) \<noteq> Some True \<or> storable h state)"

text \<open>A key that names no element at or past the end of an array of length \<open>n\<close>.\<close>

definition withinLength :: "number \<Rightarrow> nat \<Rightarrow> bool" where
  "withinLength i n = (case arrayIndex i of None \<Rightarrow> True | Some k \<Rightarrow> k < n)"

text \<open>The invariant of the stepper state: as many steps as \<open>totalSteps\<close> says.\<close>

definition lengthInvariant :: "'g StepperState \<Rightarrow> bool" where
  "lengthInvariant s = (length (steps s) = totalSteps (generalInfo s))"

section \<open>Properties\<close>

subsection \<open>Auxiliary facts\<close>

lemma orOne_max: "orOne n = max n 1"
  by (simp add: orOne_def)

lemma mapSteps_length: "mapSteps f i xs = Some ys \<Longrightarrow> length ys = length xs"
  by (induction f i xs arbitrary: ys rule: mapSteps.induct) (auto split: option.splits)

lemma mapSteps_nth:
  "mapSteps f i xs = Some ys \<Longrightarrow> j < length xs \<Longrightarrow>
     (case xs ! j of
        Hole \<Rightarrow> ys ! j = Hole
      | Undef \<Rightarrow> f None (int (i + j)) = Some (ys ! j)
      | Item x \<Rightarrow> f (Some x) (int (i + j)) = Some (ys ! j))"
proof (induction xs arbitrary: i ys j)
  case Nil
  then show ?case by simp
next
  case (Cons x xs)
  from Cons.prems(1) obtain y zs where ys: "ys = y # zs" and rest: "mapSteps f (Suc i) xs = Some zs"
    by (cases x) (auto split: option.splits)
  show ?case
  proof (cases j)
    case 0
    with Cons.prems(1) ys show ?thesis
      by (cases x) (auto split: option.splits)
  next
    case (Suc k)
    with Cons.prems(2) have "k < length xs" by simp
    from Cons.IH[OF rest this] Suc ys show ?thesis by (simp split: slot.splits)
  qed
qed

lemma mapSteps_Item:
  assumes "mapSteps f 0 xs = Some ys" "readAt xs k = Some x"
  shows "f (Some x) k = Some (ys ! nat k)"
proof -
  from assms(2) have k: "0 \<le> k" "nat k < length xs" "xs ! nat k = Item x"
    by (auto simp: readAt_def split: if_splits slot.splits)
  from mapSteps_nth[OF assms(1) k(2)] k show ?thesis by simp
qed

lemma fromStep_Some: "fromStep c (Some s) f = Some (keep c (f s))"
  by (simp add: fromStep_def keep_def split: option.splits)

lemma readAt_SomeD: "readAt xs k = Some x \<Longrightarrow> 0 \<le> k \<and> nat k < length xs \<and> xs ! nat k = Item x"
  by (auto simp: readAt_def split: if_splits slot.splits)

lemma mapSteps_other:
  assumes m: "mapSteps f 0 xs = Some ys" 
    and f: "\<And>x. f x k = Some (case x of None \<Rightarrow> Undef | Some s \<Rightarrow> Item s)"
  shows "readAt ys k = readAt xs k"
proof (cases "0 \<le> k \<and> nat k < length xs")
  case True
  then have k: "0 \<le> k" "nat k < length xs" by auto
  from mapSteps_nth[OF m k(2)] k(1) f show ?thesis
    using mapSteps_length[OF m] by (auto simp: readAt_def split: slot.splits)
next
  case False
  then show ?thesis using mapSteps_length[OF m] by (auto simp: readAt_def)
qed

lemma wizard_steps: "steps (stepperState wizard) =
  [Item \<lparr>name = JStr ''Step 1'', canAccess = JBool True, canEdit = JBool False, isOptional = JBool False, isCompleted = JBool False\<rparr>,
   Item \<lparr>name = JStr ''Step 2'', canAccess = JBool False, canEdit = JBool False, isOptional = JBool False, isCompleted = JBool False\<rparr>,
   Item \<lparr>name = JStr ''Step 3'', canAccess = JBool False, canEdit = JBool False, isOptional = JBool False, isCompleted = JBool False\<rparr>]"
  by (simp add: wizard_def setStepsInfo_def threeSteps_def plainStep_def initialStep_def mountedHook_def)

lemma wizard_info: "generalInfo (stepperState wizard) =
  \<lparr>totalSteps = 3, currentProgress = 0, completedProgress = 0, canAccessProgress = 1 / 3\<rparr>"
  by (simp add: wizard_def setStepsInfo_def threeSteps_def)

lemma wizard_rest: "currentStep wizard = 0" "config wizard = plainConfig" "console wizard = []"
  "localStorage wizard = None" "loading wizard = False" "generalState (stepperState wizard) = []"
  "storable wizard = always"
  by (simp_all add: wizard_def setStepsInfo_def mountedHook_def baseState_def)

lemma saveToLocalStorage_Some:
  "writeReturns h state \<Longrightarrow>
     saveToLocalStorage state (h\<lparr>loading := b\<rparr>) =
       Some (if saveLocalStorage (config h) = Some True
             then h\<lparr>loading := b, localStorage := Some state\<rparr> else h\<lparr>loading := b\<rparr>)"
  by (auto simp: saveToLocalStorage_def writeReturns_def)

lemma saveToLocalStorage_None:
  "\<not> writeReturns h state \<Longrightarrow> saveToLocalStorage state (h\<lparr>loading := b\<rparr>) = None"
  by (auto simp: saveToLocalStorage_def writeReturns_def)

text \<open>Past their guards, the three entry points are \<open>executeStepNavigation\<close>.\<close>

lemma onNext_accepted:
  "currentStep h < int (totalSteps (generalInfo (stepperState h))) - 1 \<Longrightarrow>
     onNext args h = (Fulfilled, executeStepNavigation (currentStep h + 1) args h)"
  by (simp add: onNext_def)

lemma onPrev_accepted:
  "currentStep h \<noteq> 0 \<Longrightarrow>
     onPrev args h = (Fulfilled, executeStepNavigation (currentStep h - 1) args h)"
  by (simp add: onPrev_def)

lemma goToStep_accepted:
  "fst (goToStep t args h) = Fulfilled \<Longrightarrow>
     snd (goToStep t args h) = h
     \<or> snd (goToStep t args h) = h\<lparr>console := console h @ [Warn_StepNotAccessible t]\<rparr>
     \<or> snd (goToStep t args h) = executeStepNavigation t args h"
  by (auto simp: goToStep_def Let_def split: if_splits)

lemma isValidData_keys: "isValidData d \<longleftrightarrow> fst ` set d \<subseteq> set validKeys"
  by (auto simp: isValidData_def list_all_iff)

lemma validateUpdates_None:
  "validateUpdates n us = None \<longleftrightarrow>
     (\<forall>u \<in> set us. isValidData (data u) \<and> \<not> belowZero (stepIndex u)
        \<and> \<not> atOrAbove (stepIndex u) n)"
  by (induction us) auto

lemma validateUpdates_Some:
  "validateUpdates n us = Some e \<Longrightarrow>
     \<exists>u \<in> set us. (e = InvalidDataProvided (written (data u)) \<and> \<not> isValidData (data u))
        \<or> (e = InvalidStepIndex (stepIndex u)
            \<and> (belowZero (stepIndex u) \<or> atOrAbove (stepIndex u) n))"
  by (induction us) (auto split: if_splits)

lemma arrayIndex_below:
  "\<not> atOrAbove i n \<Longrightarrow> withinLength i n"
proof (cases i)
  case (Num r)
  assume "\<not> atOrAbove i n"
  with Num have r: "r < of_nat n" by simp
  show ?thesis
  proof (cases "r = of_int \<lfloor>r\<rfloor> \<and> 0 \<le> r \<and> r \<le> 4294967294")
    case True
    then have "of_int \<lfloor>r\<rfloor> < (of_nat n :: rat)" using r by simp
    then have h: "\<lfloor>r\<rfloor> < int n" by (metis of_int_less_iff of_int_of_nat_eq)
    from True have z: "0 \<le> \<lfloor>r\<rfloor>" by simp
    from z h have "nat \<lfloor>r\<rfloor> < n" by (rule_tac iffD2[OF nat_less_iff])
    with Num True show ?thesis by (simp add: withinLength_def)
  next
    case False
    with Num show ?thesis by (auto simp: withinLength_def)
  qed
qed (simp_all add: withinLength_def)

lemma allItems_iff: "allItems xs \<longleftrightarrow> (\<forall>s \<in> set xs. \<exists>x. s = Item x)"
proof (induction xs)
  case Nil
  then show ?case by (simp add: allItems_def)
next
  case (Cons a xs)
  then show ?case by (cases a) (simp_all add: allItems_def)
qed

lemma copyArray_allItems: "allItems xs \<Longrightarrow> copyArray xs = xs"
  by (induction xs) (auto simp: allItems_def copyArray_def split: slot.splits)

lemma length_copyArray: "length (copyArray xs) = length xs"
  by (simp add: copyArray_def)

lemma set_setAt: "set (setAt xs i v) \<subseteq> set xs \<union> {Hole, Item v}"
  by (auto simp: setAt_def split: option.splits dest: subsetD[OF set_update_subset_insert])

lemma length_setAt: "withinLength i (length xs) \<Longrightarrow> length (setAt xs i v) = length xs"
  by (auto simp: setAt_def withinLength_def split: option.splits)

lemma fold_setAt_noUndef:
  "Undef \<notin> set xs \<Longrightarrow> Undef \<notin> set (fold (\<lambda>u acc. setAt acc (stepIndex u) (g u acc)) us xs)"
proof (induction us arbitrary: xs)
  case Nil
  then show ?case by simp
next
  case (Cons u us)
  from Cons.prems set_setAt[of xs "stepIndex u" "g u xs"]
  have "Undef \<notin> set (setAt xs (stepIndex u) (g u xs))" by auto
  from Cons.IH[OF this] show ?case by simp
qed

lemma fold_setAt_length:
  "\<forall>u \<in> set us. withinLength (stepIndex u) (length xs) \<Longrightarrow>
     length (fold (\<lambda>u acc. setAt acc (stepIndex u) (g u acc)) us xs) = length xs"
proof (induction us arbitrary: xs)
  case Nil
  then show ?case by simp
next
  case (Cons u us)
  then have l: "length (setAt xs (stepIndex u) (g u xs)) = length xs"
    by (simp add: length_setAt)
  with Cons.prems
  have "\<forall>w \<in> set us. withinLength (stepIndex w) (length (setAt xs (stepIndex u) (g u xs)))"
    by simp
  from Cons.IH[OF this] l show ?case by simp
qed

lemma updateStepsStatus_noUndef:
  "allItems (steps s) \<Longrightarrow> Undef \<notin> set (updateStepsStatus s us)"
  unfolding updateStepsStatus_def
  by (rule fold_setAt_noUndef) (auto simp: copyArray_allItems allItems_iff)

lemma updateStepsStatus_length:
  "\<forall>u \<in> set us. withinLength (stepIndex u) (length (steps s)) \<Longrightarrow>
     length (updateStepsStatus s us) = length (steps s)"
  unfolding updateStepsStatus_def
  using fold_setAt_length[of us "copyArray (steps s)"] by (simp add: length_copyArray)

lemma stepCallback_Some: "\<exists>y. stepCallback cfg c t fw (Some x) k = Some (Item y)"
  by (simp add: stepCallback_def fromStep_Some Let_def)

lemma mapSteps_defined:
  assumes "Undef \<notin> set xs" and "\<And>x k. \<exists>y. f (Some x) k = Some (Item y)"
  shows "\<exists>ys. mapSteps f i xs = Some ys \<and> Undef \<notin> set ys"
  using assms(1)
proof (induction xs arbitrary: i)
  case Nil
  then show ?case by simp
next
  case (Cons a xs)
  then obtain ys where ys: "mapSteps f (Suc i) xs = Some ys" "Undef \<notin> set ys" by auto
  show ?case
  proof (cases a)
    case Hole
    with ys show ?thesis by simp
  next
    case Undef
    with Cons.prems show ?thesis by simp
  next
    case (Item x)
    from assms(2)[of x "int i"] obtain y where "f (Some x) (int i) = Some (Item y)" by blast
    with Item ys show ?thesis by simp
  qed
qed

lemma countWhere_defined: "Undef \<notin> set xs \<Longrightarrow> \<exists>n. countWhere p xs = Some n"
  by (induction p xs rule: countWhere.induct) auto

lemma applyUpdates_length:
  "\<forall>u \<in> set us. withinLength (stepIndex u) (length xs) \<Longrightarrow>
     length (applyUpdates xs us) = length xs"
  unfolding applyUpdates_def
  using fold_setAt_length[of us "copyArray xs" "\<lambda>u acc. spreadStep (readKey acc (stepIndex u)) (data u)"]
  by (simp add: length_copyArray)

subsection \<open>Navigation\<close>

text \<open>
  C1, as the code has it. When the \<open>onCompleteStep\<close> callback of an accepted navigation
  rejects, the rejection is caught and logged and the loading flag is reset to \<open>False\<close>,
  but the two statements that commit are skipped: the stepper state and the active step
  index keep the values they had before the call. What stays is the write to local
  storage, made before the callback ran (when \<open>saveLocalStorage\<close> is on). A callback
  that rejects has been called: the new state was built and the write before the call
  returned.
\<close>

theorem rejected_callback_skips_commit:
  assumes "newState t args h = Some s'"
    and "writeReturns h s'"
    and "onCompleteStep args = Some callback"
    and "callback s' = Rejected e"
  shows "stepperState (executeStepNavigation t args h) = stepperState h
       \<and> currentStep (executeStepNavigation t args h) = currentStep h
       \<and> loading (executeStepNavigation t args h) = False
       \<and> console (executeStepNavigation t args h) = console h @ [Error_InStepNavigation (CallbackError e)]
       \<and> localStorage (executeStepNavigation t args h) =
           (if saveLocalStorage (config h) = Some True then Some s' else localStorage h)"
  using assms
  by (simp add: executeStepNavigation_def saveToLocalStorage_Some logError_def)

theorem rejected_callback_skips_commit_witness:
  "newState 1 withFailingCallback wizard = Some wizardOnSecond
   \<and> writeReturns wizard wizardOnSecond
   \<and> onCompleteStep withFailingCallback = Some failingCallback
   \<and> failingCallback wizardOnSecond = Rejected ''request failed''
   \<and> stepperState (executeStepNavigation 1 withFailingCallback wizard) = stepperState wizard
   \<and> currentStep (executeStepNavigation 1 withFailingCallback wizard) = 0
   \<and> loading (executeStepNavigation 1 withFailingCallback wizard) = False
   \<and> console (executeStepNavigation 1 withFailingCallback wizard) =
        [Error_InStepNavigation (CallbackError ''request failed'')]
   \<and> localStorage (executeStepNavigation 1 withFailingCallback wizard) = Some wizardOnSecond"
proof -
  have p1: "newState 1 withFailingCallback wizard = Some wizardOnSecond" by code_simp
  have p2: "onCompleteStep withFailingCallback = Some failingCallback"
    by (simp add: withFailingCallback_def)
  have p3: "failingCallback wizardOnSecond = Rejected ''request failed''"
    by (simp add: failingCallback_def)
  have p4: "writeReturns wizard wizardOnSecond"
    by (simp add: writeReturns_def wizard_rest always_def)
  have w: "currentStep wizard = 0" "console wizard = []" "saveLocalStorage (config wizard) = Some True"
    by (simp_all add: wizard_rest plainConfig_def)
  from rejected_callback_skips_commit[OF p1 p4 p2 p3] p1 p2 p3 p4 w show ?thesis by simp
qed

text \<open>
  The claim as stated fails: the wizard stays on its first step, with its old state, when
  the callback of \<open>onNext\<close> rejects.
\<close>

theorem rejected_callback_counterexample:
  "fst (onNext withFailingCallback wizard) = Fulfilled
   \<and> newState 1 withFailingCallback wizard = Some wizardOnSecond
   \<and> stepperState (snd (onNext withFailingCallback wizard)) \<noteq> wizardOnSecond
   \<and> currentStep (snd (onNext withFailingCallback wizard)) \<noteq> 1"
  by code_simp

text \<open>
  C3, as the code has it. An accepted navigation to \<open>t\<close> that reaches its commit (the new
  state is built without an error, the write of it to local storage returns, and the
  \<open>onCompleteStep\<close> callback is absent or resolves) commits that state and the index
  \<open>t\<close>, and the committed \<open>currentProgress\<close> is \<open>(t + 1) / max N 1\<close> for the
  \<open>totalSteps\<close> \<open>N\<close> of the state before.
\<close>

theorem committed_progress:
  assumes "newState t args h = Some s'"
    and "writeReturns h s'"
    and "onCompleteStep args = None \<or> (\<exists>callback. onCompleteStep args = Some callback \<and> callback s' = Resolved)"
  shows "stepperState (executeStepNavigation t args h) = s'
       \<and> currentStep (executeStepNavigation t args h) = t
       \<and> currentProgress (generalInfo (stepperState (executeStepNavigation t args h))) =
           of_int (t + 1) / of_nat (max (totalSteps (generalInfo (stepperState h))) 1)"
proof -
  from assms have c: "executeStepNavigation t args h =
      (commit s' t (the (saveToLocalStorage s' (h\<lparr>loading := True\<rparr>))))\<lparr>loading := False\<rparr>"
    by (auto simp: executeStepNavigation_def saveToLocalStorage_Some)
  from assms(1) have "currentProgress (generalInfo s') =
      of_int (t + 1) / of_nat (orOne (totalSteps (generalInfo (stepperState h))))"
    by (auto simp: newState_def Let_def split: Option.bind_splits)
  with c assms(2) show ?thesis
    by (simp add: commit_def saveToLocalStorage_Some orOne_max)
qed

theorem committed_progress_witness:
  "newState 1 noArgs wizard = Some wizardOnSecond
   \<and> writeReturns wizard wizardOnSecond
   \<and> onCompleteStep noArgs = None
   \<and> stepperState (executeStepNavigation 1 noArgs wizard) = wizardOnSecond
   \<and> currentStep (executeStepNavigation 1 noArgs wizard) = 1
   \<and> currentProgress (generalInfo (stepperState (executeStepNavigation 1 noArgs wizard))) = 2 / 3"
proof -
  have p1: "newState 1 noArgs wizard = Some wizardOnSecond" by code_simp
  have p2: "onCompleteStep noArgs = None" by (simp add: noArgs_def)
  have p3: "writeReturns wizard wizardOnSecond"
    by (simp add: writeReturns_def wizard_rest always_def)
  have w: "totalSteps (generalInfo (stepperState wizard)) = 3" by (simp add: wizard_info)
  from committed_progress[OF p1 p3 disjI1[OF p2]] p1 p2 p3 w show ?thesis by auto
qed

text \<open>
  The claim as stated fails for a navigation whose callback rejects: nothing is committed,
  and \<open>currentProgress\<close> stays at \<open>0\<close> where the claim expects \<open>2 / 3\<close>.
\<close>

theorem progress_counterexample:
  "fst (onNext withFailingCallback wizard) = Fulfilled
   \<and> currentProgress (generalInfo (stepperState (snd (onNext withFailingCallback wizard)))) = 0
   \<and> of_int (1 + 1) / of_nat (max (totalSteps (generalInfo (stepperState wizard))) 1) = (2 / 3 :: rat)"
  by code_simp

text \<open>
  A write that throws is caught as well: the error is logged, the loading flag is reset,
  and nothing is committed or stored.
\<close>

lemma failed_write_skips_commit:
  assumes "newState t args h = Some s'" and "\<not> writeReturns h s'"
  shows "stepperState (executeStepNavigation t args h) = stepperState h
       \<and> currentStep (executeStepNavigation t args h) = currentStep h
       \<and> loading (executeStepNavigation t args h) = False
       \<and> console (executeStepNavigation t args h) = console h @ [Error_InStepNavigation StorageError]
       \<and> localStorage (executeStepNavigation t args h) = localStorage h"
  using assms
  by (simp add: executeStepNavigation_def saveToLocalStorage_None logError_def)

lemma failed_write_on_full_store:
  "fst (onNext noArgs wizardFullStore) = Fulfilled
   \<and> currentStep (snd (onNext noArgs wizardFullStore)) = 0
   \<and> stepperState (snd (onNext noArgs wizardFullStore)) = stepperState wizardFullStore
   \<and> console (snd (onNext noArgs wizardFullStore)) = [Error_InStepNavigation StorageError]"
  by code_simp

text \<open>
  C4, as the code has it. On a forward navigation from \<open>c\<close> to \<open>t\<close> every override field
  of the steps \<open>c\<close> and \<open>t\<close> keeps its value unless the configuration sets it, with two
  exceptions: \<open>next.currentStep.isCompleted\<close> defaults to \<open>true\<close>, and
  \<open>next.nextStep.canAccess\<close> defaults to \<open>true\<close>. Every other step is passed through.
\<close>

theorem forward_overrides:
  assumes "c < t" and "updateStepStates cfg xs c (Some t) True = Some ys"
  shows "(\<forall>s. readAt xs c = Some s \<longrightarrow> readAt ys c = Some (s\<lparr>
            canAccess := keep (cfg_next cfg \<bind> next_currentStep \<bind> ov_canAccess) (canAccess s),
            isCompleted := keep (cfg_next cfg \<bind> next_currentStep \<bind> ov_isCompleted) (JBool True),
            isOptional := keep (cfg_next cfg \<bind> next_currentStep \<bind> ov_isOptional) (isOptional s),
            canEdit := keep (cfg_next cfg \<bind> next_currentStep \<bind> ov_canEdit) (canEdit s)\<rparr>))
       \<and> (\<forall>s. readAt xs t = Some s \<longrightarrow> readAt ys t = Some (s\<lparr>
            canAccess := keep (cfg_next cfg \<bind> next_nextStep \<bind> ov_canAccess) (JBool True),
            isCompleted := keep (cfg_next cfg \<bind> next_nextStep \<bind> ov_isCompleted) (isCompleted s),
            isOptional := keep (cfg_next cfg \<bind> next_nextStep \<bind> ov_isOptional) (isOptional s),
            canEdit := keep (cfg_next cfg \<bind> next_nextStep \<bind> ov_canEdit) (canEdit s)\<rparr>))
       \<and> (\<forall>i. i \<noteq> c \<and> i \<noteq> t \<longrightarrow> readAt ys i = readAt xs i)"
proof (intro conjI allI impI)
  from assms(2) have m: "mapSteps (stepCallback cfg c (Some t) True) 0 xs = Some ys"
    by (simp add: updateStepStates_def)
  have len: "length ys = length xs" using m by (rule mapSteps_length)
  {
    fix s assume r: "readAt xs c = Some s"
    from mapSteps_Item[OF m r] have "ys ! nat c = Item (s\<lparr>
       canAccess := keep (cfg_next cfg \<bind> next_currentStep \<bind> ov_canAccess) (canAccess s),
       isCompleted := keep (cfg_next cfg \<bind> next_currentStep \<bind> ov_isCompleted) (JBool True),
       isOptional := keep (cfg_next cfg \<bind> next_currentStep \<bind> ov_isOptional) (isOptional s),
       canEdit := keep (cfg_next cfg \<bind> next_currentStep \<bind> ov_canEdit) (canEdit s)\<rparr>)"
      by (simp add: stepCallback_def fromStep_Some base_def orTrue_def keep_def split: option.splits)
    with readAt_SomeD[OF r] len show "readAt ys c = Some (s\<lparr>
       canAccess := keep (cfg_next cfg \<bind> next_currentStep \<bind> ov_canAccess) (canAccess s),
       isCompleted := keep (cfg_next cfg \<bind> next_currentStep \<bind> ov_isCompleted) (JBool True),
       isOptional := keep (cfg_next cfg \<bind> next_currentStep \<bind> ov_isOptional) (isOptional s),
       canEdit := keep (cfg_next cfg \<bind> next_currentStep \<bind> ov_canEdit) (canEdit s)\<rparr>)"
      by (simp add: readAt_def)
  }
  {
    fix s assume r: "readAt xs t = Some s"
    from mapSteps_Item[OF m r] assms(1) have "ys ! nat t = Item (s\<lparr>
       canAccess := keep (cfg_next cfg \<bind> next_nextStep \<bind> ov_canAccess) (JBool True),
       isCompleted := keep (cfg_next cfg \<bind> next_nextStep \<bind> ov_isCompleted) (isCompleted s),
       isOptional := keep (cfg_next cfg \<bind> next_nextStep \<bind> ov_isOptional) (isOptional s),
       canEdit := keep (cfg_next cfg \<bind> next_nextStep \<bind> ov_canEdit) (canEdit s)\<rparr>)"
      by (simp add: stepCallback_def fromStep_Some base_def orTrue_def keep_def split: option.splits)
    with readAt_SomeD[OF r] len show "readAt ys t = Some (s\<lparr>
       canAccess := keep (cfg_next cfg \<bind> next_nextStep \<bind> ov_canAccess) (JBool True),
       isCompleted := keep (cfg_next cfg \<bind> next_nextStep \<bind> ov_isCompleted) (isCompleted s),
       isOptional := keep (cfg_next cfg \<bind> next_nextStep \<bind> ov_isOptional) (isOptional s),
       canEdit := keep (cfg_next cfg \<bind> next_nextStep \<bind> ov_canEdit) (canEdit s)\<rparr>)"
      by (simp add: readAt_def)
  }
  {
    fix i assume "i \<noteq> c \<and> i \<noteq> t"
    then have "\<And>x. stepCallback cfg c (Some t) True x i = Some (case x of None \<Rightarrow> Undef | Some s \<Rightarrow> Item s)"
      by (simp add: stepCallback_def)
    from mapSteps_other[OF m this] show "readAt ys i = readAt xs i" .
  }
qed

theorem forward_overrides_witness:
  "(0::int) < 1
   \<and> updateStepStates plainConfig (steps (stepperState wizard)) 0 (Some 1) True = Some (steps wizardOnSecond)
   \<and> readAt (steps wizardOnSecond) 0 = Some \<lparr>name = JStr ''Step 1'', canAccess = JBool True,
        canEdit = JBool False, isOptional = JBool False, isCompleted = JBool True\<rparr>
   \<and> readAt (steps wizardOnSecond) 1 = Some \<lparr>name = JStr ''Step 2'', canAccess = JBool True,
        canEdit = JBool False, isOptional = JBool False, isCompleted = JBool False\<rparr>
   \<and> readAt (steps wizardOnSecond) 2 = readAt (steps (stepperState wizard)) 2"
proof -
  have p: "updateStepStates plainConfig (steps (stepperState wizard)) 0 (Some 1) True = Some (steps wizardOnSecond)"
    by code_simp
  have r0: "readAt (steps (stepperState wizard)) 0 = Some \<lparr>name = JStr ''Step 1'', canAccess = JBool True,
        canEdit = JBool False, isOptional = JBool False, isCompleted = JBool False\<rparr>"
    by code_simp
  have r1: "readAt (steps (stepperState wizard)) 1 = Some \<lparr>name = JStr ''Step 2'', canAccess = JBool False,
        canEdit = JBool False, isOptional = JBool False, isCompleted = JBool False\<rparr>"
    by code_simp
  have c: "cfg_next plainConfig = None" by (simp add: plainConfig_def)
  from forward_overrides[of 0 1 plainConfig "steps (stepperState wizard)" "steps wizardOnSecond"] p r0 r1 c
  show ?thesis by (simp add: keep_def)
qed

text \<open>
  The claim as stated fails on the target step: with nothing configured, its \<open>canAccess\<close>
  goes from \<open>false\<close> to \<open>true\<close>.
\<close>

theorem forward_target_counterexample:
  "cfg_next plainConfig = None
   \<and> map_option canAccess (readAt (steps (stepperState wizard)) 1) = Some (JBool False)
   \<and> map_option canAccess
       (readAt (the (updateStepStates plainConfig (steps (stepperState wizard)) 0 (Some 1) True)) 1)
       = Some (JBool True)"
  by code_simp


text \<open>
  C7. For a target index \<open>t\<close> below \<open>0\<close> or not below \<open>totalSteps\<close>, \<open>goToStep\<close> rejects
  with the error that names the step \<open>t\<close>, and the hook is left as it was: the stepper
  state, the active index, the stored item, the loading flag and the console.
\<close>

theorem goToStep_out_of_range:
  assumes "t < 0 \<or> t \<ge> int (totalSteps (generalInfo (stepperState h)))"
  shows "goToStep t args h = (RejectedWith (StepDoesNotExist t), h)"
  using assms by (simp add: goToStep_def)

theorem goToStep_out_of_range_witness:
  "((5::int) < 0 \<or> 5 \<ge> int (totalSteps (generalInfo (stepperState wizard))))
   \<and> fst (goToStep 5 noArgs wizard) = RejectedWith (StepDoesNotExist 5)
   \<and> stepperState (snd (goToStep 5 noArgs wizard)) = stepperState wizard
   \<and> currentStep (snd (goToStep 5 noArgs wizard)) = currentStep wizard
   \<and> localStorage (snd (goToStep 5 noArgs wizard)) = localStorage wizard"
proof -
  have p: "(5::int) < 0 \<or> 5 \<ge> int (totalSteps (generalInfo (stepperState wizard)))"
    by (simp add: wizard_info)
  from goToStep_out_of_range[OF p] p show ?thesis by simp
qed

text \<open>
  C10. For an in-range target \<open>t\<close> below the current index, \<open>goToStep\<close> runs the navigation,
  whatever the \<open>canAccess\<close> flag of the target step and whatever the configured
  validation: its result is that of \<open>executeStepNavigation\<close>, which reads neither.
\<close>

theorem goToStep_backward:
  assumes "0 \<le> t" and "t < int (totalSteps (generalInfo (stepperState h)))"
    and "t < currentStep h"
  shows "goToStep t args h = (Fulfilled, executeStepNavigation t args h)"
  using assms by (simp add: goToStep_def)

theorem goToStep_backward_witness:
  "(0::int) \<le> 1 \<and> 1 < int (totalSteps (generalInfo (stepperState closedBehind)))
   \<and> 1 < currentStep closedBehind
   \<and> validations (config closedBehind) = None
   \<and> map_option canAccess (readAt (steps (stepperState closedBehind)) 1) = Some (JBool False)
   \<and> goToStep 1 noArgs closedBehind = (Fulfilled, executeStepNavigation 1 noArgs closedBehind)
   \<and> currentStep (executeStepNavigation 1 noArgs closedBehind) = 1"
proof -
  have p: "(0::int) \<le> 1" "1 < int (totalSteps (generalInfo (stepperState closedBehind)))"
    "1 < currentStep closedBehind"
    by code_simp+
  have q: "validations (config closedBehind) = None"
    "map_option canAccess (readAt (steps (stepperState closedBehind)) 1) = Some (JBool False)"
    "currentStep (executeStepNavigation 1 noArgs closedBehind) = 1"
    by code_simp+
  from goToStep_backward[OF p] p q show ?thesis by simp
qed

text \<open>
  On the last step (\<open>c = N - 1\<close>) \<open>onNext\<close> never changes the active index or the stepper
  state, whatever its arguments, and it logs the warning when the stored item is
  removed, if it is to be, and the \<open>onCompleteStep\<close> callback is absent or resolves.
\<close>

lemma onNext_on_last_step:
  assumes "currentStep h = int (totalSteps (generalInfo (stepperState h))) - 1"
  shows "currentStep (snd (onNext args h)) = currentStep h
       \<and> stepperState (snd (onNext args h)) = stepperState h
       \<and> ((saveLocalStorage (config h) \<noteq> Some True \<or> removable h)
            \<and> (onCompleteStep args = None
                \<or> (\<exists>callback. onCompleteStep args = Some callback \<and> callback (stepperState h) = Resolved))
           \<longrightarrow> fst (onNext args h) = Fulfilled
               \<and> console (snd (onNext args h)) = console h @ [Warn_AlreadyOnLastStep])"
  using assms by (auto simp: onNext_def Let_def split: option.splits settled.splits)

lemma onNext_on_last_step_example:
  "currentStep wizardAtEnd = int (totalSteps (generalInfo (stepperState wizardAtEnd))) - 1
   \<and> currentStep (snd (onNext noArgs wizardAtEnd)) = 2
   \<and> stepperState (snd (onNext noArgs wizardAtEnd)) = stepperState wizardAtEnd
   \<and> fst (onNext noArgs wizardAtEnd) = Fulfilled
   \<and> console (snd (onNext noArgs wizardAtEnd)) = [Warn_AlreadyOnLastStep]"
  by code_simp

text \<open>
  C8 at a failing input. On its last step the wizard is given a callback that rejects:
  \<open>onNext\<close> itself rejects and the console stays empty, so the warning that the caller is
  already on the last step is not logged. The same callback on the first step, where
  \<open>executeStepNavigation\<close> awaits it inside its \<open>try\<close>, is caught and logged and
  \<open>onNext\<close> is fulfilled.
\<close>

theorem last_step_rejection_escapes:
  "currentStep wizardAtEnd = int (totalSteps (generalInfo (stepperState wizardAtEnd))) - 1
   \<and> fst (onNext withFailingCallback wizardAtEnd) = RejectedWith (CallbackRejection ''request failed'')
   \<and> console (snd (onNext withFailingCallback wizardAtEnd)) = []
   \<and> fst (onNext withFailingCallback wizard) = Fulfilled
   \<and> console (snd (onNext withFailingCallback wizard)) =
        [Error_InStepNavigation (CallbackError ''request failed'')]"
  by code_simp

text \<open>
  C2 at a failing input. On the three-step wizard, \<open>onNext\<close> with a status update for
  index \<open>3\<close> is accepted and commits a step list of length \<open>4\<close>, while \<open>totalSteps\<close> stays
  \<open>3\<close>: the navigation does not check the index that \<open>updateSteps\<close> checks.
\<close>

theorem unchecked_status_update_breaks_length:
  "lengthInvariant (stepperState wizard)
   \<and> fst (onNext pastTheEnd wizard) = Fulfilled
   \<and> length (steps (stepperState (snd (onNext pastTheEnd wizard)))) = 4
   \<and> totalSteps (generalInfo (stepperState (snd (onNext pastTheEnd wizard)))) = 3
   \<and> \<not> lengthInvariant (stepperState (snd (onNext pastTheEnd wizard)))"
  by code_simp

text \<open>
  On a state whose step array holds a step object in every slot, building the new
  state never throws, whatever the target and the arguments.
\<close>

theorem newState_defined:
  assumes "allItems (steps (stepperState h))"
  shows "\<exists>s'. newState t args h = Some s'"
proof -
  let ?us = "case statusUpdates args of None \<Rightarrow> [] | Some us \<Rightarrow> us"
  have u: "Undef \<notin> set (updateStepsStatus (stepperState h) ?us)"
    using assms by (rule updateStepsStatus_noUndef)
  have "\<exists>ys. mapSteps (stepCallback (config h) (currentStep h) (Some t) (t > currentStep h)) 0
      (updateStepsStatus (stepperState h) ?us) = Some ys \<and> Undef \<notin> set ys"
    using u by (rule mapSteps_defined) (rule stepCallback_Some)
  then obtain ys where ys: "updateStepStates (config h) (updateStepsStatus (stepperState h) ?us)
      (currentStep h) (Some t) (t > currentStep h) = Some ys" "Undef \<notin> set ys"
    by (auto simp: updateStepStates_def)
  from countWhere_defined[OF ys(2)] obtain n m where
    "countWhere (\<lambda>item. isCompleted item = JBool True) ys = Some n"
    "countWhere (\<lambda>item. canAccess item = JBool True) ys = Some m"
    by blast
  then obtain p where "calculateProgress ys (totalSteps (generalInfo (stepperState h))) = Some p"
    by (simp add: calculateProgress_def)
  with ys(1) show ?thesis by (simp add: newState_def Let_def)
qed

theorem newState_defined_witness:
  "allItems (steps (stepperState wizard)) \<and> (\<exists>s'. newState 2 noArgs wizard = Some s')"
proof -
  have p: "allItems (steps (stepperState wizard))" by code_simp
  from newState_defined[OF p] p show ?thesis by simp
qed

text \<open>
  A navigation none of whose status updates names an element at or past the end of the
  step list keeps the invariant \<open>steps.length = totalSteps\<close>, whether or not it commits.
\<close>

theorem navigation_invariant:
  assumes "lengthInvariant (stepperState h)"
    and "\<forall>u \<in> set (case statusUpdates args of None \<Rightarrow> [] | Some us \<Rightarrow> us).
           withinLength (stepIndex u) (length (steps (stepperState h)))"
  shows "lengthInvariant (stepperState (executeStepNavigation t args h))"
proof (cases "newState t args h")
  case None
  with assms(1) show ?thesis by (simp add: executeStepNavigation_def logError_def)
next
  case (Some s')
  then obtain ys where ys: "updateStepStates (config h)
       (updateStepsStatus (stepperState h) (case statusUpdates args of None \<Rightarrow> [] | Some us \<Rightarrow> us))
       (currentStep h) (Some t) (t > currentStep h) = Some ys"
     and s': "steps s' = ys" "totalSteps (generalInfo s') = totalSteps (generalInfo (stepperState h))"
    by (auto simp: newState_def Let_def split: Option.bind_splits)
  from ys have "length ys = length (updateStepsStatus (stepperState h) (case statusUpdates args of None \<Rightarrow> [] | Some us \<Rightarrow> us))"
    by (simp add: updateStepStates_def mapSteps_length)
  with updateStepsStatus_length[OF assms(2)] s' assms(1) have inv: "lengthInvariant s'"
    by (simp add: lengthInvariant_def)
  with Some assms(1) show ?thesis
    by (auto simp: executeStepNavigation_def logError_def commit_def saveToLocalStorage_def Let_def
        split: option.splits settled.splits)
qed

theorem navigation_invariant_witness:
  "lengthInvariant (stepperState wizard)
   \<and> (\<exists>u \<in> set (case statusUpdates inRange of None \<Rightarrow> [] | Some us \<Rightarrow> us). stepIndex u = Num 2)
   \<and> lengthInvariant (stepperState (executeStepNavigation 1 inRange wizard))
   \<and> currentStep (executeStepNavigation 1 inRange wizard) = 1"
proof -
  have p: "lengthInvariant (stepperState wizard)" by code_simp
  have q: "\<forall>u \<in> set (case statusUpdates inRange of None \<Rightarrow> [] | Some us \<Rightarrow> us).
             withinLength (stepIndex u) (length (steps (stepperState wizard)))"
    by (simp add: inRange_def noArgs_def wizard_steps withinLength_def)
  have r: "\<exists>u \<in> set (case statusUpdates inRange of None \<Rightarrow> [] | Some us \<Rightarrow> us). stepIndex u = Num 2"
    by (simp add: inRange_def noArgs_def)
  have c: "currentStep (executeStepNavigation 1 inRange wizard) = 1" by code_simp
  from navigation_invariant[OF p q] p r c show ?thesis by simp
qed

text \<open>
  \<open>goToStep\<close> to the current step, when that index is in range, does nothing: the hook
  is left as it was.
\<close>

theorem goToStep_same_step:
  assumes "0 \<le> currentStep h" and "currentStep h < int (totalSteps (generalInfo (stepperState h)))"
  shows "goToStep (currentStep h) args h = (Fulfilled, h)"
  using assms by (simp add: goToStep_def)

theorem goToStep_same_step_witness:
  "0 \<le> currentStep wizardAtEnd
   \<and> currentStep wizardAtEnd < int (totalSteps (generalInfo (stepperState wizardAtEnd)))
   \<and> goToStep 2 pastTheEnd wizardAtEnd = (Fulfilled, wizardAtEnd)"
proof -
  have p: "0 \<le> currentStep wizardAtEnd"
    "currentStep wizardAtEnd < int (totalSteps (generalInfo (stepperState wizardAtEnd)))"
    "currentStep wizardAtEnd = 2"
    by code_simp+
  from goToStep_same_step[OF p(1,2), of pastTheEnd] p show ?thesis by simp
qed

text \<open>
  On the first step \<open>onPrev\<close> only logs the warning, whatever its arguments.
\<close>

theorem onPrev_on_first_step:
  assumes "currentStep h = 0"
  shows "onPrev args h = (Fulfilled, h\<lparr>console := console h @ [Warn_AlreadyOnFirstStep]\<rparr>)"
  using assms by (simp add: onPrev_def)

theorem onPrev_on_first_step_witness:
  "currentStep wizard = 0
   \<and> currentStep (snd (onPrev withFailingCallback wizard)) = 0
   \<and> stepperState (snd (onPrev withFailingCallback wizard)) = stepperState wizard
   \<and> console (snd (onPrev withFailingCallback wizard)) = [Warn_AlreadyOnFirstStep]"
proof -
  have p: "currentStep wizard = 0" "console wizard = []" by (simp_all add: wizard_rest)
  from onPrev_on_first_step[OF p(1), of withFailingCallback] p show ?thesis by simp
qed

text \<open>
  With the validation on (the default), a jump forward to a step whose \<open>canAccess\<close> is
  falsy only logs the warning: no state changes.
\<close>

theorem goToStep_forward_blocked:
  assumes "currentStep h < t" and "t < int (totalSteps (generalInfo (stepperState h)))"
    and "0 \<le> currentStep h"
    and "validations (config h) \<bind> val_goToStep \<bind> val_canAccess \<noteq> Some False"
    and "readAt (steps (stepperState h)) t = Some s" and "\<not> truthy (canAccess s)"
  shows "goToStep t args h = (Fulfilled, h\<lparr>console := console h @ [Warn_StepNotAccessible t]\<rparr>)"
  using assms by (auto simp: goToStep_def split: option.splits)

theorem goToStep_forward_blocked_witness:
  "currentStep wizard < 2 \<and> 2 < int (totalSteps (generalInfo (stepperState wizard)))
   \<and> validations (config wizard) = None
   \<and> map_option canAccess (readAt (steps (stepperState wizard)) 2) = Some (JBool False)
   \<and> currentStep (snd (goToStep 2 noArgs wizard)) = 0
   \<and> stepperState (snd (goToStep 2 noArgs wizard)) = stepperState wizard
   \<and> console (snd (goToStep 2 noArgs wizard)) = [Warn_StepNotAccessible 2]"
proof -
  have p: "currentStep wizard < 2" "2 < int (totalSteps (generalInfo (stepperState wizard)))"
    "0 \<le> currentStep wizard"
    by (simp_all add: wizard_rest wizard_info)
  have v: "validations (config wizard) = None" by (simp add: wizard_rest plainConfig_def)
  then have v': "validations (config wizard) \<bind> val_goToStep \<bind> val_canAccess \<noteq> Some False"
    by simp
  have r: "readAt (steps (stepperState wizard)) 2 = Some \<lparr>name = JStr ''Step 3'',
      canAccess = JBool False, canEdit = JBool False, isOptional = JBool False,
      isCompleted = JBool False\<rparr>"
    by code_simp
  have w: "currentStep wizard = 0" "console wizard = []" by (simp_all add: wizard_rest)
  from goToStep_forward_blocked[OF p v' r, of noArgs] p v r w show ?thesis by simp
qed


subsection \<open>Step actions\<close>

text \<open>
  C5, as the code has it. \<open>setStepsInfo\<close> on a list of \<open>N\<close> steps sets \<open>totalSteps\<close> to \<open>N\<close>,
  \<open>currentProgress\<close> and \<open>completedProgress\<close> to \<open>0\<close>, and \<open>canAccessProgress\<close> to \<open>1 / N\<close>
  (to \<open>0\<close> for the empty list); step \<open>i\<close> gets the configured name and flags, a flag left
  out defaulting to \<open>false\<close>, but for \<open>canAccess\<close>, which defaults to \<open>i = 0\<close>.
\<close>

theorem setStepsInfo_result:
  "totalSteps (generalInfo (stepperState (setStepsInfo cfgs h))) = length cfgs
   \<and> currentProgress (generalInfo (stepperState (setStepsInfo cfgs h))) = 0
   \<and> completedProgress (generalInfo (stepperState (setStepsInfo cfgs h))) = 0
   \<and> canAccessProgress (generalInfo (stepperState (setStepsInfo cfgs h))) =
        (if cfgs = [] then 0 else 1 / of_nat (length cfgs))
   \<and> length (steps (stepperState (setStepsInfo cfgs h))) = length cfgs
   \<and> (\<forall>i < length cfgs. steps (stepperState (setStepsInfo cfgs h)) ! i =
         Item \<lparr>name = JStr (sc_name (cfgs ! i)),
               canAccess = (case sc_canAccess (cfgs ! i) of None \<Rightarrow> JBool (i = 0) | Some b \<Rightarrow> JBool b),
               canEdit = (case sc_canEdit (cfgs ! i) of None \<Rightarrow> JBool False | Some b \<Rightarrow> JBool b),
               isOptional = (case sc_isOptional (cfgs ! i) of None \<Rightarrow> JBool False | Some b \<Rightarrow> JBool b),
               isCompleted = (case sc_isCompleted (cfgs ! i) of None \<Rightarrow> JBool False | Some b \<Rightarrow> JBool b)\<rparr>)"
  by (auto simp: setStepsInfo_def initialStep_def nth_enumerate_eq split: option.splits)

theorem setStepsInfo_result_witness:
  "totalSteps (generalInfo (stepperState (setStepsInfo threeSteps mountedHook))) = 3
   \<and> canAccessProgress (generalInfo (stepperState (setStepsInfo threeSteps mountedHook))) = 1 / 3
   \<and> steps (stepperState (setStepsInfo threeSteps mountedHook)) ! 0 =
        Item \<lparr>name = JStr ''Step 1'', canAccess = JBool True, canEdit = JBool False,
          isOptional = JBool False, isCompleted = JBool False\<rparr>
   \<and> steps (stepperState (setStepsInfo threeSteps mountedHook)) ! 2 =
        Item \<lparr>name = JStr ''Step 3'', canAccess = JBool False, canEdit = JBool False,
          isOptional = JBool False, isCompleted = JBool False\<rparr>"
proof -
  have l: "length threeSteps = 3" "threeSteps \<noteq> []"
    "threeSteps ! 0 = plainStep ''Step 1''" "threeSteps ! 2 = plainStep ''Step 3''"
    by (simp_all add: threeSteps_def)
  from setStepsInfo_result[of threeSteps mountedHook] l show ?thesis
    by (simp add: plainStep_def)
qed

text \<open>
  The claim as stated fails on \<open>canAccessProgress\<close>: for three steps it is \<open>1 / 3\<close>, not
  \<open>0\<close>.
\<close>

theorem setStepsInfo_counterexample:
  "length threeSteps = 3
   \<and> canAccessProgress (generalInfo (stepperState (setStepsInfo threeSteps mountedHook))) = 1 / 3
   \<and> canAccessProgress (generalInfo (stepperState (setStepsInfo threeSteps mountedHook))) \<noteq> 0"
  by code_simp

text \<open>
  When some update of the batch has a data key outside \<open>canAccess\<close>, \<open>canEdit\<close>,
  \<open>isOptional\<close>, \<open>isCompleted\<close>, or a step index for which one of the comparisons
  \<open>stepIndex < 0\<close> and \<open>stepIndex >= steps.length\<close> holds, \<open>updateSteps\<close> throws an error
  that carries the offending index, or what the message shows of the offending data, and
  the hook (so every step, and the stored item) is left as it was.
\<close>

lemma updateSteps_all_or_nothing:
  assumes "\<exists>u \<in> set updates.
             \<not> fst ` set (data u) \<subseteq> {''canAccess'', ''canEdit'', ''isOptional'', ''isCompleted''}
             \<or> belowZero (stepIndex u)
             \<or> atOrAbove (stepIndex u) (length (steps (stepperState h)))"
  shows "\<exists>e. updateSteps updates h = (Inl e, h)
           \<and> (\<exists>u \<in> set updates.
                 (e = InvalidDataProvided (written (data u)) \<and> \<not> isValidData (data u))
                 \<or> (e = InvalidStepIndex (stepIndex u)
                     \<and> (belowZero (stepIndex u)
                         \<or> atOrAbove (stepIndex u) (length (steps (stepperState h))))))"
proof -
  from assms have "validateUpdates (length (steps (stepperState h))) updates \<noteq> None"
    unfolding validateUpdates_None isValidData_keys validKeys_def by fastforce
  then obtain e where e: "validateUpdates (length (steps (stepperState h))) updates = Some e"
    by blast
  from validateUpdates_Some[OF e] e show ?thesis
    by (auto simp: updateSteps_def)
qed

lemma updateSteps_all_or_nothing_example:
  "fst (updateSteps badBatch wizard) = Inl (InvalidDataProvided [(''invalidProperty'', JBool True)])
   \<and> steps (stepperState (snd (updateSteps badBatch wizard))) = steps (stepperState wizard)
   \<and> localStorage (snd (updateSteps badBatch wizard)) = localStorage wizard"
  by code_simp

text \<open>
  C6 at a failing input. The index \<open>NaN\<close> is outside the step list, yet both comparisons
  of the validation are false for it: \<open>updateSteps\<close> on the wizard does not throw, it
  returns a state and writes it to local storage.
\<close>

theorem updateSteps_accepts_NaN:
  "\<not> belowZero NaN
   \<and> \<not> atOrAbove NaN (length (steps (stepperState wizard)))
   \<and> arrayIndex NaN = None
   \<and> fst (updateSteps nanBatch wizard) = Inr (stepperState wizard)
   \<and> localStorage wizard = None
   \<and> localStorage (snd (updateSteps nanBatch wizard)) = Some (stepperState wizard)"
  by code_simp

text \<open>\<open>setStepsInfo\<close> establishes the invariant \<open>steps.length = totalSteps\<close>.\<close>

theorem setStepsInfo_invariant: "lengthInvariant (stepperState (setStepsInfo cfgs h))"
  by (simp add: lengthInvariant_def setStepsInfo_def)

lemma setAndSave_steps:
  "steps (stepperState (snd (setAndSave state h))) = steps state
   \<and> generalInfo (stepperState (snd (setAndSave state h))) = generalInfo state"
  by (simp add: setAndSave_def saveToLocalStorage_def)

text \<open>
  \<open>updateSteps\<close> keeps the invariant, whether it throws or applies the batch, and whether
  or not the write of the new state returns.
\<close>

theorem updateSteps_invariant:
  assumes "lengthInvariant (stepperState h)"
  shows "lengthInvariant (stepperState (snd (updateSteps updates h)))"
proof (cases "validateUpdates (length (steps (stepperState h))) updates")
  case None
  then have "\<forall>u \<in> set updates. withinLength (stepIndex u) (length (steps (stepperState h)))"
    by (simp add: validateUpdates_None arrayIndex_below)
  from applyUpdates_length[OF this] None assms show ?thesis
    by (simp add: updateSteps_def lengthInvariant_def setAndSave_steps)
next
  case (Some e)
  with assms show ?thesis by (simp add: updateSteps_def)
qed

theorem updateSteps_invariant_witness:
  "lengthInvariant (stepperState wizard)
   \<and> lengthInvariant (stepperState (snd (updateSteps goodBatch wizard)))
   \<and> map_option canEdit (readAt (steps (stepperState (snd (updateSteps goodBatch wizard)))) 2)
       = Some (JBool True)"
proof -
  have p: "lengthInvariant (stepperState wizard)" by code_simp
  have q: "map_option canEdit (readAt (steps (stepperState (snd (updateSteps goodBatch wizard)))) 2)
       = Some (JBool True)" by code_simp
  from updateSteps_invariant[OF p] p q show ?thesis by simp
qed

text \<open>\<open>updateGeneralState\<close> keeps the invariant.\<close>

theorem updateGeneralState_invariant:
  "lengthInvariant (stepperState h) \<Longrightarrow>
     lengthInvariant (stepperState (snd (updateGeneralState d h)))"
  by (simp add: lengthInvariant_def updateGeneralState_def setAndSave_steps)

theorem updateGeneralState_invariant_witness:
  "lengthInvariant (stepperState wizard)
   \<and> lengthInvariant (stepperState (snd (updateGeneralState [(''email'', JStr ''a@b.c'')] wizard)))"
proof -
  have p: "lengthInvariant (stepperState wizard)" by code_simp
  from updateGeneralState_invariant[OF p] p show ?thesis by simp
qed

subsection \<open>The persistence adapter\<close>

text \<open>
  When the write succeeds and the item can be read, loading the key back returns what
  the host's \<open>parse\<close> makes of the text that its \<open>stringify\<close> made of the data (\<open>null\<close>
  for the empty text), whatever was stored before: the adapter adds nothing of its own
  to the round trip.
\<close>

lemma load_after_save:
  assumes "stringify w d = Some text" and "fits w key text" and "readable w key"
  shows "fst (loadFromLocalStorage w key (sync_saveToLocalStorage w key d st)) =
           (if text = [] then None else parse w text)"
  using assms
  by (simp add: loadFromLocalStorage_def sync_saveToLocalStorage_def split: option.splits)

text \<open>
  C9, as the code has it. When the write succeeds (\<open>JSON.stringify\<close> returns a text and
  \<open>setItem\<close> accepts it), the item can be read, and the host's \<open>JSON.parse\<close> reads that
  text, which is not empty, back as the value saved, loading the key after saving returns
  that value, whatever the store held before.
\<close>

theorem save_then_load:
  assumes "stringify w d = Some text" and "fits w key text" and "readable w key"
    and "text \<noteq> []" and "parse w text = Some d"
  shows "fst (loadFromLocalStorage w key (sync_saveToLocalStorage w key d st)) = Some d"
  using assms
  by (simp add: loadFromLocalStorage_def sync_saveToLocalStorage_def)

theorem save_then_load_witness:
  "stringify sampleJSON BaseState = Some baseText
   \<and> fits sampleJSON ''stepperState'' baseText
   \<and> readable sampleJSON ''stepperState''
   \<and> baseText \<noteq> []
   \<and> parse sampleJSON baseText = Some BaseState
   \<and> fst (loadFromLocalStorage sampleJSON ''stepperState''
        (sync_saveToLocalStorage sampleJSON ''stepperState'' BaseState emptyStore)) = Some BaseState"
proof -
  have p: "stringify sampleJSON BaseState = Some baseText"
    "fits sampleJSON ''stepperState'' baseText"
    "readable sampleJSON ''stepperState''"
    by (simp_all add: sampleJSON_def sampleStringify_def anyText_def anyKey_def)
  have q: "baseText \<noteq> []" by (simp add: baseText_def)
  have r: "parse sampleJSON baseText = Some BaseState"
    by (simp add: sampleJSON_def sampleParse_def)
  from save_then_load[OF p q r, of emptyStore] p q r show ?thesis by simp
qed

text \<open>
  The claim as stated fails for a state that holds \<open>NaN\<close>: the write succeeds, and what is
  loaded back has \<open>null\<close> where the state saved had \<open>NaN\<close>.
\<close>

theorem save_then_load_counterexample:
  "stringify sampleJSON BaseStateNaN = Some nullText
   \<and> fits sampleJSON ''stepperState'' nullText
   \<and> readable sampleJSON ''stepperState''
   \<and> fst (loadFromLocalStorage sampleJSON ''stepperState''
        (sync_saveToLocalStorage sampleJSON ''stepperState'' BaseStateNaN emptyStore))
       = Some BaseStateNull
   \<and> BaseStateNull \<noteq> BaseStateNaN"
  by (simp add: sampleJSON_def sampleStringify_def sampleParse_def anyText_def anyKey_def
      loadFromLocalStorage_def sync_saveToLocalStorage_def emptyStore_def nullText_def baseText_def)

end
